theory Spec2Isabelle
  imports Complex_Main "HOL-Library.Sublist" "HOL-Library.Char_ord" "HOL-Library.List_Lexorder"
    "HOL-Library.Multiset"
begin

section \<open>POSIX paths and strings, as the scanner uses them\<close>

text \<open>
  \<^verbatim>\<open>find-packages.js\<close> calls \<^verbatim>\<open>Path.basename\<close>, \<^verbatim>\<open>Path.dirname\<close>,
  \<^verbatim>\<open>String.prototype.charAt\<close> and \<^verbatim>\<open>String.prototype.indexOf\<close>. They are modelled
  here for the POSIX flavour of Node's \<^verbatim>\<open>path\<close> module, where the only separator is the
  forward slash. A path is a \<^typ>\<open>string\<close>.

  \<^verbatim>\<open>basename\<close> drops trailing slashes and returns what follows the last remaining slash;
  \<^verbatim>\<open>dirname\<close> scans from the end down to index 1, skips trailing slashes, skips the last
  component and cuts at the slash before it (\<^verbatim>\<open>'/'\<close> or \<^verbatim>\<open>'.'\<close> when there is none,
  \<^verbatim>\<open>'//'\<close> when the cut is at index 1 of a rooted path).
\<close>

definition basename :: "string \<Rightarrow> string" where
  "basename path =
     rev (takeWhile (\<lambda>c. c \<noteq> CHR ''/'') (dropWhile (\<lambda>c. c = CHR ''/'') (rev path)))"

definition dirname :: "string \<Rightarrow> string" where
  "dirname path =
     (case path of
        [] \<Rightarrow> ''.''
      | c # cs \<Rightarrow>
          (let hasRoot = (c = CHR ''/'');
               r = dropWhile (\<lambda>d. d \<noteq> CHR ''/'') (dropWhile (\<lambda>d. d = CHR ''/'') (rev cs))
           in case r of
                [] \<Rightarrow> if hasRoot then ''/'' else ''.''
              | _ # rest \<Rightarrow> if hasRoot \<and> rest = [] then ''//'' else c # rev rest))"

text \<open>\<^verbatim>\<open>s.indexOf(pat)\<close>: the first index at which \<^verbatim>\<open>pat\<close> occurs in \<^verbatim>\<open>s\<close>, or -1.\<close>

fun indexOf :: "string \<Rightarrow> string \<Rightarrow> int" where
  "indexOf [] pat = (if pat = [] then 0 else - 1)"
| "indexOf (c # cs) pat =
     (if prefix pat (c # cs) then 0
      else (let i = indexOf cs pat in if i = - 1 then - 1 else i + 1))"

text \<open>\<^verbatim>\<open>s.charAt(i)\<close>: the one-character string at index \<^verbatim>\<open>i\<close>, or the empty string.\<close>

definition charAt :: "string \<Rightarrow> nat \<Rightarrow> string" where
  "charAt s i = (if i < length s then [s ! i] else [])"

text \<open>
  The components of a path between slashes (\<^verbatim>\<open>path.split('/')\<close>). The source never
  computes them; they are what the word "segment" means in the statements below.
\<close>

fun path_segments :: "string \<Rightarrow> string list" where
  "path_segments [] = [[]]"
| "path_segments (c # cs) =
     (if c = CHR ''/'' then [] # path_segments cs
      else (case path_segments cs of [] \<Rightarrow> [[c]] | s # ss \<Rightarrow> (c # s) # ss))"

text \<open>
  The absolute, normalised path of a directory reached from the root through the
  directories named \<^verbatim>\<open>segs\<close>, as \<^verbatim>\<open>path.resolve\<close> prints it (readdirp resolves
  \<^verbatim>\<open>fullParentDir\<close> this way).
\<close>

definition abs_path :: "string list \<Rightarrow> string" where
  "abs_path segs = (if segs = [] then ''/'' else concat (map (\<lambda>s. CHR ''/'' # s) segs))"

definition dir_name_ok :: "string \<Rightarrow> bool" where
  "dir_name_ok s \<longleftrightarrow> s \<noteq> [] \<and> CHR ''/'' \<notin> set s"


section \<open>The directory scanner's filters (find-packages.js)\<close>

text \<open>
  readdirp's entry info, with the fields the pipeline reads: the entry's own name, its
  full path, the full path of the directory that holds it, and its \<^verbatim>\<open>lstat\<close> result.
\<close>

record Stats =
  dev :: nat
  ino :: nat
  mtime :: nat

record EntryInfo =
  name :: string
  fullPath :: string
  fullParentDir :: string
  stat :: Stats

definition filterDirsNodeModPacks :: "EntryInfo \<Rightarrow> bool" where
  "filterDirsNodeModPacks ei =
     (let eiName = name ei in
      if charAt eiName 0 = ''.'' then False
      else if eiName = ''node_modules'' then True
      else
        (let eiFullParentDir = fullParentDir ei in
         if indexOf eiFullParentDir ''node_modules'' \<noteq> - 1
         then basename eiFullParentDir = ''node_modules''
         else True))"

text \<open>
  \<^verbatim>\<open>ENDS_NODE_MOD_RE = /[\\\/]node_modules$/\<close>: the string ends with a backslash or a
  forward slash followed by \<^verbatim>\<open>node_modules\<close>. \<^term>\<open>CHR 0x5C\<close> is the backslash.
\<close>

definition ENDS_NODE_MOD_RE_test :: "string \<Rightarrow> bool" where
  "ENDS_NODE_MOD_RE_test s \<longleftrightarrow>
     suffix (CHR 0x5C # ''node_modules'') s \<or> suffix (CHR ''/'' # ''node_modules'') s"

text \<open>
  The filter after the walk:
  \<^verbatim>\<open>.filter(ei => ENDS_NODE_MOD_RE.test(Path.dirname(ei.fullParentDir)))\<close>.
\<close>

definition parentEndsNodeModules :: "EntryInfo \<Rightarrow> bool" where
  "parentEndsNodeModules ei = ENDS_NODE_MOD_RE_test (dirname (fullParentDir ei))"


section \<open>Manifests and correlation keys (find-packages.js)\<close>

text \<open>
  A parsed manifest is a JavaScript value as \<^verbatim>\<open>JSON.parse\<close> builds it. An object is the
  association list of its own properties (a lookup takes the first binding of a key). A
  number carries its value; \<^verbatim>\<open>JSON.parse\<close> yields no \<^verbatim>\<open>NaN\<close>, so a number is falsy
  exactly when it is zero.
\<close>

datatype json =
    JNull
  | JBool bool
  | JNum rat
  | JStr string
  | JArr "json list"
  | JObj "(string \<times> json) list"

text \<open>JavaScript truthiness, as \<^verbatim>\<open>&&\<close> and \<^verbatim>\<open>filter\<close> test it.\<close>

fun truthy :: "json \<Rightarrow> bool" where
  "truthy JNull = False"
| "truthy (JBool b) = b"
| "truthy (JNum n) = (n \<noteq> 0)"
| "truthy (JStr s) = (s \<noteq> [])"
| "truthy (JArr vs) = True"
| "truthy (JObj kvs) = True"

text \<open>
  \<^verbatim>\<open>pack.name\<close> and \<^verbatim>\<open>pack.version\<close>: the property of an object, \<^verbatim>\<open>undefined\<close>
  (here \<^term>\<open>None\<close>) when the object has none or the value is no object. No prototype
  of a parsed value supplies either of the two properties.
\<close>

fun property :: "json \<Rightarrow> string \<Rightarrow> json option" where
  "property (JObj kvs) k = map_of kvs k"
| "property v k = None"

text \<open>
  Modelled from the spec: \<^verbatim>\<open>formatDevNameVersion\<close> of \<^verbatim>\<open>src/util/format\<close>, which is not
  among the sources. The spec calls the correlation key "a value derived from (deviceId,
  packageName, packageVersion)" and, in its glossary, the "(deviceId, name, version)
  tuple"; the key is therefore the triple itself. Such a key is never falsy.
\<close>

type_synonym CorrelationKey = "nat \<times> json \<times> json"

definition formatDevNameVersion :: "nat \<Rightarrow> json \<Rightarrow> json \<Rightarrow> CorrelationKey" where
  "formatDevNameVersion d n v = (d, n, v)"

text \<open>
  The result selector of the second \<^verbatim>\<open>mergeMap\<close>:
  \<^verbatim>\<open>(ei, pack) => ({ entryInfo: ei, devNameVer: (pack && pack.name && pack.version) ?
  formatDevNameVersion(ei.stat.dev, pack.name, pack.version) : null })\<close>.
  A manifest that failed to parse arrives as \<^verbatim>\<open>null\<close> (\<^verbatim>\<open>throws: false\<close>).
\<close>

record EiDN =
  entryInfo :: EntryInfo
  devNameVer :: "CorrelationKey option"

definition mkEiDN :: "EntryInfo \<Rightarrow> json \<Rightarrow> EiDN" where
  "mkEiDN ei pack =
     \<lparr>entryInfo = ei,
      devNameVer =
        (if truthy pack then
           (case property pack ''name'' of
              None \<Rightarrow> None
            | Some n \<Rightarrow>
                if truthy n then
                  (case property pack ''version'' of
                     None \<Rightarrow> None
                   | Some v \<Rightarrow>
                       if truthy v then Some (formatDevNameVersion (dev (stat ei)) n v)
                       else None)
                else None)
         else None)\<rparr>"

text \<open>\<^verbatim>\<open>.filter(obj => obj.devNameVer)\<close>: has name and version, not null.\<close>

definition hasDevNameVer :: "EiDN \<Rightarrow> bool" where
  "hasDevNameVer obj \<longleftrightarrow> devNameVer obj \<noteq> None"


section \<open>The streaming grouper (find-packages.js)\<close>

text \<open>
  What an RxJS observable delivers to its observer: values, then at most one error or
  one completion.
\<close>

datatype 'a notification = Next 'a | Error | Complete

text \<open>
  \<^verbatim>\<open>.groupBy(keySelector).mergeMap(group => group.reduce((acc, x) => { acc.push(elem(x));
  return acc; }, []).map(arr => [group.key, arr]))\<close>.

  \<^verbatim>\<open>groupBy\<close> keeps an insertion-ordered map from key to group; the first value of a key
  creates the group, which \<^verbatim>\<open>mergeMap\<close> subscribes to at once with a fresh accumulator
  array; every value of the key is pushed onto the end of that array. The state of the
  operator chain is the list of (key, accumulator) pairs in the order the keys first
  appeared, or \<^term>\<open>None\<close> once the chain has completed or failed.
\<close>

fun push_group :: "('k \<times> 'v list) list \<Rightarrow> 'k \<Rightarrow> 'v \<Rightarrow> ('k \<times> 'v list) list" where
  "push_group [] k v = [(k, [v])]"
| "push_group ((k', acc) # gs) k v =
     (if k' = k then (k', acc @ [v]) # gs else (k', acc) # push_group gs k v)"

text \<open>
  One notification from upstream: the new state and what is delivered downstream. A
  value emits nothing. Completion completes every group in map order, so every
  \<^verbatim>\<open>reduce\<close> emits its array, and then the result completes. An error fails the result.
\<close>

fun grouper_step ::
  "('a \<Rightarrow> 'k) \<Rightarrow> ('a \<Rightarrow> 'v) \<Rightarrow> ('k \<times> 'v list) list option \<Rightarrow> 'a notification
     \<Rightarrow> ('k \<times> 'v list) list option \<times> ('k \<times> 'v list) notification list" where
  "grouper_step key elem None n = (None, [])"
| "grouper_step key elem (Some gs) (Next x) = (Some (push_group gs (key x) (elem x)), [])"
| "grouper_step key elem (Some gs) Complete = (None, map Next gs @ [Complete])"
| "grouper_step key elem (Some gs) Error = (None, [Error])"

fun grouper_run ::
  "('a \<Rightarrow> 'k) \<Rightarrow> ('a \<Rightarrow> 'v) \<Rightarrow> ('k \<times> 'v list) list option \<Rightarrow> 'a notification list
     \<Rightarrow> ('k \<times> 'v list) list option \<times> ('k \<times> 'v list) notification list" where
  "grouper_run key elem st [] = (st, [])"
| "grouper_run key elem st (n # ns) =
     (case grouper_step key elem st n of
        (st', out) \<Rightarrow> (case grouper_run key elem st' ns of (st'', outs) \<Rightarrow> (st'', out @ outs)))"

text \<open>
  The keyed entries of a sequence of candidates whose manifests have been read, in the
  order the reads finished, and the groups the grouper delivers for them at completion.
\<close>

definition keyedEntries :: "(EntryInfo \<times> json) list \<Rightarrow> EiDN list" where
  "keyedEntries xs = filter hasDevNameVer (map (\<lambda>(ei, pack). mkEiDN ei pack) xs)"

definition groupsOf :: "('a \<Rightarrow> 'k) \<Rightarrow> ('a \<Rightarrow> 'v) \<Rightarrow> 'a list \<Rightarrow> ('k \<times> 'v list) list" where
  "groupsOf key elem xs = foldl (\<lambda>gs x. push_group gs (key x) (elem x)) [] xs"

definition findPackagesGrouped_groups ::
  "(EntryInfo \<times> json) list \<Rightarrow> (CorrelationKey option \<times> EntryInfo list) list" where
  "findPackagesGrouped_groups xs = groupsOf devNameVer entryInfo (keyedEntries xs)"

text \<open>The keys of a sequence in the order of their first occurrence.\<close>

definition first_occurrences :: "'k list \<Rightarrow> 'k list" where
  "first_occurrences ks = rev (remdups (rev ks))"


section \<open>The scan pipeline as an event-driven machine (find-packages.js)\<close>

text \<open>
  The shared runtime environment \<^verbatim>\<open>rtenv\<close>: the cancellation flag, the counters, and the
  reference store in memory. A store is an object; \<^verbatim>\<open>rtenv.existingShares\<close> holds a
  reference to it, modelled as an address into a heap of store objects.
\<close>

type_synonym objref = nat

record RTEnv =
  cancelled :: bool
  packageCount :: nat
  savedByteCount :: nat
  existingShares :: objref


text \<open>
  The state of the operator chain: the first \<^verbatim>\<open>mergeMap\<close> (roots waiting for a slot and
  roots whose stream is subscribed, and whether it has completed), the streams destroyed
  by the cancellation subscription, the second \<^verbatim>\<open>mergeMap\<close> (entries waiting for a slot
  and entries whose manifest is being read), the calls of \<^verbatim>\<open>logScan\<close>, the grouper, and
  everything the resulting observable has delivered.
\<close>

record scan_state =
  rtenv :: RTEnv
  scanLog :: "(nat \<times> EiDN) list"
  rootBuffer :: "string list"
  rootActive :: "string list"
  destroyed :: "string list"
  scanComplete :: bool
  readBuffer :: "EntryInfo list"
  readActive :: "EntryInfo list"
  grouper :: "(CorrelationKey option \<times> EntryInfo list) list option"
  emitted :: "(CorrelationKey option \<times> EntryInfo list) notification list"

text \<open>A notification reaches \<^verbatim>\<open>groupBy\<close>; what the grouper delivers is emitted.\<close>

definition toGrouper :: "scan_state \<Rightarrow> EiDN notification \<Rightarrow> scan_state" where
  "toGrouper st n =
     (case grouper_step devNameVer entryInfo (grouper st) n of
        (g, out) \<Rightarrow> st\<lparr>grouper := g, emitted := emitted st @ out\<rparr>)"

text \<open>
  A manifest has been read: the result selector builds the keyed entry, the filter drops
  it when it has no key, and otherwise \<^verbatim>\<open>rtenv.packageCount\<close> is incremented,
  \<^verbatim>\<open>logScan\<close> is called and the entry reaches \<^verbatim>\<open>groupBy\<close>.
\<close>

definition onManifest :: "scan_state \<Rightarrow> EntryInfo \<Rightarrow> json \<Rightarrow> scan_state" where
  "onManifest st ei pack =
     (let obj = mkEiDN ei pack in
      if hasDevNameVer obj then
        (let n = packageCount (rtenv st) + 1;
             st1 = st\<lparr>rtenv := (rtenv st)\<lparr>packageCount := n\<rparr>, scanLog := scanLog st @ [(n, obj)]\<rparr>
         in toGrouper st1 (Next obj))
      else st)"

text \<open>
  \<^verbatim>\<open>mergeMap(project, resultSelector, concurrent)\<close>: a value is subscribed when fewer
  than \<^verbatim>\<open>concurrent\<close> inner observables are active and buffered otherwise; when an inner
  observable completes, the next buffered value is taken, or, with nothing active and
  the source complete, the operator completes. Subscribing a root creates its readdirp
  stream and subscribes \<^verbatim>\<open>fstream.destroy()\<close> to the replayed cancellation subject, so
  a stream created after cancellation is destroyed at once.
\<close>

definition startRead :: "nat \<Rightarrow> scan_state \<Rightarrow> EntryInfo \<Rightarrow> scan_state" where
  "startRead c st ei =
     (if length (readActive st) < c then st\<lparr>readActive := readActive st @ [ei]\<rparr>
      else st\<lparr>readBuffer := readBuffer st @ [ei]\<rparr>)"

definition readDone :: "nat \<Rightarrow> scan_state \<Rightarrow> EntryInfo \<Rightarrow> scan_state" where
  "readDone c st ei =
     (let st1 = st\<lparr>readActive := remove1 ei (readActive st)\<rparr> in
      case readBuffer st1 of
        nxt # rest \<Rightarrow> startRead c (st1\<lparr>readBuffer := rest\<rparr>) nxt
      | [] \<Rightarrow> if readActive st1 = [] \<and> scanComplete st1 then toGrouper st1 Complete else st1)"

definition scanCompleted :: "scan_state \<Rightarrow> scan_state" where
  "scanCompleted st =
     (let st1 = st\<lparr>scanComplete := True\<rparr> in
      if readActive st1 = [] \<and> readBuffer st1 = [] then toGrouper st1 Complete else st1)"

definition startRoot :: "nat \<Rightarrow> scan_state \<Rightarrow> string \<Rightarrow> scan_state" where
  "startRoot c st r =
     (if length (rootActive st) < c then
        st\<lparr>rootActive := rootActive st @ [r],
           destroyed := (if cancelled (rtenv st) then destroyed st @ [r] else destroyed st)\<rparr>
      else st\<lparr>rootBuffer := rootBuffer st @ [r]\<rparr>)"

definition rootDone :: "nat \<Rightarrow> scan_state \<Rightarrow> string \<Rightarrow> scan_state" where
  "rootDone c st r =
     (let st1 = st\<lparr>rootActive := remove1 r (rootActive st)\<rparr> in
      case rootBuffer st1 of
        nxt # rest \<Rightarrow> startRoot c (st1\<lparr>rootBuffer := rest\<rparr>) nxt
      | [] \<Rightarrow> if rootActive st1 = [] then scanCompleted st1 else st1)"





section \<open>The command line program: reference store and final tasks (cli.js)\<close>

text \<open>
  The reference store maps a key to an array of reference tuples
  \<^verbatim>\<open>[modPath, packJsonInode, packJsonMTimeEpoch]\<close>. It is a JavaScript object: the
  association list of its properties, in property order.
\<close>

type_synonym RefTuple = "string \<times> nat \<times> nat"

type_synonym Shares = "(string \<times> RefTuple list) list"

text \<open>
  Modelled from the spec: \<^verbatim>\<open>sortObjKeys\<close> of \<^verbatim>\<open>src/util/format\<close>, which is not among
  the sources. The spec has the store "written back ... with keys sorted for
  deterministic diffs": the same properties, in ascending order of their keys.
\<close>

definition sortObjKeys :: "Shares \<Rightarrow> Shares" where
  "sortObjKeys obj = sort_key fst obj"

text \<open>
  The file system, as far as the program touches it: a path holds no file, a file that
  is not the JSON text of a store (an empty file, for one), or the JSON text of a store.
  \<^verbatim>\<open>fs.ensureFileSync\<close> creates an empty file where there is none and leaves an existing
  file alone; \<^verbatim>\<open>fs.readJsonSync(path, { throws: false })\<close> yields \<^verbatim>\<open>null\<close> (here
  \<^term>\<open>None\<close>) for a file that is missing or does not parse; \<^verbatim>\<open>fs.outputJsonSync\<close>
  replaces the file's content. Failures of the write itself are not modelled.
\<close>

datatype file_content = NotJson | JsonFile Shares

type_synonym filesystem = "string \<Rightarrow> file_content option"

definition ensureFileSync :: "string \<Rightarrow> filesystem \<Rightarrow> filesystem" where
  "ensureFileSync path fs = (case fs path of None \<Rightarrow> fs(path \<mapsto> NotJson) | Some f \<Rightarrow> fs)"

definition readJsonSync :: "filesystem \<Rightarrow> string \<Rightarrow> Shares option" where
  "readJsonSync fs path = (case fs path of Some (JsonFile obj) \<Rightarrow> Some obj | _ \<Rightarrow> None)"

definition outputJsonSync :: "string \<Rightarrow> Shares \<Rightarrow> filesystem \<Rightarrow> filesystem" where
  "outputJsonSync path obj fs = fs(path \<mapsto> JsonFile obj)"

text \<open>
  What the program prints and does to the terminal, in order. The texts are kept
  symbolic: \<^verbatim>\<open>chalk\<close> and \<^verbatim>\<open>formatBytes\<close> only format them.
\<close>

datatype message = Blank | WouldSave nat | Updated string | Saved nat

datatype effect =
    HideCursor
  | ShowCursor
  | SingleLineLogComplete
  | Out message
  | CancelledNext
  | ConsoleErrorCancelling
  | ConsoleErrorTaskError
  | EnsureFile string
  | OutputJson string Shares

text \<open>
  The options of a run that the final tasks read: \<^verbatim>\<open>argv.dryrun\<close>,
  \<^verbatim>\<open>argv['gen-ln-cmds']\<close>, \<^verbatim>\<open>process.stdout.isTTY\<close> and the resolved \<^verbatim>\<open>REFS_PATH\<close>.
  \<^verbatim>\<open>isTermOut = isTTY && !argv['gen-ln-cmds']\<close>.
\<close>

record cli_config =
  dryrun :: bool
  gen_ln_cmds :: bool
  isTTY :: bool
  REFS_PATH :: string

definition isTermOut :: "cli_config \<Rightarrow> bool" where
  "isTermOut cfg \<longleftrightarrow> isTTY cfg \<and> \<not> gen_ln_cmds cfg"

text \<open>
  The events of a run after start-up: the two signals, the process event named
  \<^verbatim>\<open>'EXIT'\<close> that \<^verbatim>\<open>finalTasks\<close> is registered for, completion or failure of the
  concatenated task observables, and what the tasks do to \<^verbatim>\<open>rtenv\<close> meanwhile: assign
  a new store object to \<^verbatim>\<open>rtenv.existingShares\<close> (as the prune task does with
  \<^verbatim>\<open>newShares\<close>) or add to \<^verbatim>\<open>rtenv.savedByteCount\<close>.
\<close>

datatype cli_event =
    SIGINT
  | SIGTERM
  | EXIT
  | TasksComplete
  | TasksError
  | StoreAssigned Shares
  | BytesSaved nat

text \<open>
  The state of the process: \<^verbatim>\<open>rtenv\<close>; the heap of store objects and the next free
  address; \<^verbatim>\<open>origExistingShares\<close>, the reference kept at start-up; the file system; the
  listeners still registered with \<^verbatim>\<open>process.once\<close>; whether the functions wrapped by
  \<^verbatim>\<open>R.once\<close> have been called; whether the process is still running; and the effects
  so far.
\<close>

record cli_state =
  cli_rtenv :: RTEnv
  heap :: "objref \<Rightarrow> Shares"
  nextRef :: objref
  origExistingShares :: objref
  files :: filesystem
  listeners :: "cli_event list"
  cancelCalled :: bool
  finalTasksCalled :: bool
  running :: bool
  effects :: "effect list"

definition emit :: "effect list \<Rightarrow> cli_state \<Rightarrow> cli_state" where
  "emit es s = s\<lparr>effects := effects s @ es\<rparr>"

text \<open>
  \<^verbatim>\<open>const cancel = R.once(() => { rtenv.cancelled = true; rtenv.cancelled$.next(true);
  console.error('cancelling and saving state...'); if (isTermOut) { showCursor(); } })\<close>.
  \<^verbatim>\<open>R.once\<close> runs the function on the first call only.
\<close>

definition cancel_body :: "cli_config \<Rightarrow> cli_state \<Rightarrow> cli_state" where
  "cancel_body cfg s =
     emit ([CancelledNext, ConsoleErrorCancelling] @ (if isTermOut cfg then [ShowCursor] else []))
       (s\<lparr>cli_rtenv := (cli_rtenv s)\<lparr>cancelled := True\<rparr>\<rparr>)"

definition cancel :: "cli_config \<Rightarrow> cli_state \<Rightarrow> cli_state" where
  "cancel cfg s = (if cancelCalled s then s else cancel_body cfg (s\<lparr>cancelCalled := True\<rparr>))"

text \<open>
  \<^verbatim>\<open>finalTasks\<close>: complete the single-line log, show the cursor on a terminal; in
  dry-run or generate-commands mode print what would be saved and return; otherwise, if
  \<^verbatim>\<open>rtenv.existingShares !== origExistingShares\<close> (a comparison of object references),
  write the store with sorted keys and say so; then print what was saved, if anything.
\<close>

definition finalTasks_body :: "cli_config \<Rightarrow> cli_state \<Rightarrow> cli_state" where
  "finalTasks_body cfg s =
     (let s1 = emit (SingleLineLogComplete # (if isTermOut cfg then [ShowCursor] else [])) s in
      if dryrun cfg \<or> gen_ln_cmds cfg then
        emit [Out (WouldSave (savedByteCount (cli_rtenv s1)))] s1
      else
        (let s2 =
               (if existingShares (cli_rtenv s1) \<noteq> origExistingShares s1 then
                  (let sortedExistingShares = sortObjKeys (heap s1 (existingShares (cli_rtenv s1)))
                   in emit [OutputJson (REFS_PATH cfg) sortedExistingShares,
                            Out (Updated (REFS_PATH cfg))]
                        (s1\<lparr>files :=
                              outputJsonSync (REFS_PATH cfg) sortedExistingShares (files s1)\<rparr>))
                else s1)
         in if savedByteCount (cli_rtenv s2) \<noteq> 0
            then emit [Out (Saved (savedByteCount (cli_rtenv s2)))] s2
            else s2))"

definition finalTasks :: "cli_config \<Rightarrow> cli_state \<Rightarrow> cli_state" where
  "finalTasks cfg s =
     (if finalTasksCalled s then s else finalTasks_body cfg (s\<lparr>finalTasksCalled := True\<rparr>))"

text \<open>
  Start-up, from \<^verbatim>\<open>fs.ensureFileSync(REFS_PATH)\<close> on: the store file is created empty if
  missing, the store is loaded (\<^verbatim>\<open>readJsonSync(...) || {}\<close>) into a fresh object whose
  reference is kept in \<^verbatim>\<open>origExistingShares\<close>, the three \<^verbatim>\<open>process.once\<close> listeners are
  registered, the cursor is hidden on a terminal and a blank line is printed. The other
  fields of \<^verbatim>\<open>rtenv\<close> come from \<^verbatim>\<open>run-env-defaults\<close>, a parameter here.
\<close>

definition cli_start :: "cli_config \<Rightarrow> RTEnv \<Rightarrow> filesystem \<Rightarrow> cli_state" where
  "cli_start cfg defaultRTEnv fs =
     (let fs1 = ensureFileSync (REFS_PATH cfg) fs;
          loaded = (case readJsonSync fs1 (REFS_PATH cfg) of None \<Rightarrow> [] | Some obj \<Rightarrow> obj)
      in \<lparr>cli_rtenv = defaultRTEnv\<lparr>existingShares := 0\<rparr>,
           heap = (\<lambda>r. [])(0 := loaded),
           nextRef = 1,
           origExistingShares = 0,
           files = fs1,
           listeners = [SIGINT, SIGTERM, EXIT],
           cancelCalled = False,
           finalTasksCalled = False,
           running = True,
           effects = EnsureFile (REFS_PATH cfg) # (if isTermOut cfg then [HideCursor] else [])
                       @ [Out Blank]\<rparr>)"

text \<open>
  One event. A signal or process event with a \<^verbatim>\<open>once\<close> listener removes the listener
  and calls it; a signal without a listener ends the process. Completion of the tasks
  calls \<^verbatim>\<open>finalTasks\<close>; their failure prints the error.
\<close>

definition cli_step :: "cli_config \<Rightarrow> cli_state \<Rightarrow> cli_event \<Rightarrow> cli_state" where
  "cli_step cfg s ev =
     (if \<not> running s then s
      else case ev of
        SIGINT \<Rightarrow>
          if SIGINT \<in> set (listeners s)
          then cancel cfg (s\<lparr>listeners := remove1 SIGINT (listeners s)\<rparr>)
          else s\<lparr>running := False\<rparr>
      | SIGTERM \<Rightarrow>
          if SIGTERM \<in> set (listeners s)
          then cancel cfg (s\<lparr>listeners := remove1 SIGTERM (listeners s)\<rparr>)
          else s\<lparr>running := False\<rparr>
      | EXIT \<Rightarrow>
          if EXIT \<in> set (listeners s)
          then finalTasks cfg (s\<lparr>listeners := remove1 EXIT (listeners s)\<rparr>)
          else s
      | TasksComplete \<Rightarrow> finalTasks cfg s
      | TasksError \<Rightarrow> emit [ConsoleErrorTaskError] s
      | StoreAssigned obj \<Rightarrow>
          s\<lparr>heap := (heap s)(nextRef s := obj),
            nextRef := nextRef s + 1,
            cli_rtenv := (cli_rtenv s)\<lparr>existingShares := nextRef s\<rparr>\<rparr>
      | BytesSaved n \<Rightarrow>
          s\<lparr>cli_rtenv := (cli_rtenv s)\<lparr>savedByteCount := savedByteCount (cli_rtenv s) + n\<rparr>\<rparr>)"

definition cli_run :: "cli_config \<Rightarrow> cli_state \<Rightarrow> cli_event list \<Rightarrow> cli_state" where
  "cli_run cfg s evs = foldl (cli_step cfg) s evs"

text \<open>The writes of the reference-store file among a list of effects.\<close>

fun is_OutputJson :: "effect \<Rightarrow> bool" where
  "is_OutputJson (OutputJson path obj) = True"
| "is_OutputJson e = False"

text \<open>
  The bookkeeping of \<^verbatim>\<open>R.once\<close>, as an invariant of the process state: the single-line
  log has been completed, and the cancellation subject published on, exactly when the
  wrapped function has been called, and the store file has been written at most once,
  and only by the final tasks.
\<close>

definition once_inv :: "cli_state \<Rightarrow> bool" where
  "once_inv s \<longleftrightarrow>
     count_list (effects s) SingleLineLogComplete = (if finalTasksCalled s then 1 else 0) \<and>
     length (filter is_OutputJson (effects s)) \<le> (if finalTasksCalled s then 1 else 0) \<and>
     count_list (effects s) CancelledNext = (if cancelCalled s then 1 else 0)"


section \<open>Example data\<close>

text \<open>Concrete entries, manifests and a runtime environment, for the worked instances.\<close>

definition ex_entry :: "string \<Rightarrow> nat \<Rightarrow> EntryInfo" where
  "ex_entry dir d =
     \<lparr>name = ''package.json'', fullPath = dir @ ''/package.json'', fullParentDir = dir,
      stat = \<lparr>dev = d, ino = 1, mtime = 2\<rparr>\<rparr>"

definition ex_manifest :: "string \<Rightarrow> string \<Rightarrow> json" where
  "ex_manifest n v = JObj [(''name'', JStr n), (''version'', JStr v)]"

definition ex_rtenv :: RTEnv where
  "ex_rtenv = \<lparr>cancelled = False, packageCount = 0, savedByteCount = 0, existingShares = 0\<rparr>"

definition ex_scan :: "(EntryInfo \<times> json) list" where
  "ex_scan =
     [(ex_entry ''/a/node_modules/lodash'' 5, ex_manifest ''lodash'' ''4.17.0''),
      (ex_entry ''/c/node_modules/lodash'' 7, ex_manifest ''lodash'' ''4.17.0''),
      (ex_entry ''/b/node_modules/lodash'' 5, ex_manifest ''lodash'' ''4.17.0'')]"

definition ex_config :: cli_config where
  "ex_config = \<lparr>dryrun = False, gen_ln_cmds = False, isTTY = True, REFS_PATH = ''/home/u/.pkglink_refs''\<rparr>"

definition ex_store :: Shares where
  "ex_store = [(''5:lodash-4.17.0'', [(''/b/node_modules/lodash'', 11, 1480000000)])]"





section \<open>Properties of the scanner's filters\<close>

lemma indexOf_ge: "- 1 \<le> indexOf s pat"
  by (induction s) (auto simp: Let_def)

lemma indexOf_sublist: "indexOf s pat \<noteq> - 1 \<longleftrightarrow> sublist pat s"
proof (induction s)
  case Nil
  then show ?case by auto
next
  case (Cons c cs)
  have "- 1 \<le> indexOf cs pat" by (rule indexOf_ge)
  then show ?case using Cons
    by (auto simp: Let_def sublist_Cons_right)
qed

lemma basename_sublist:
  assumes "basename p = n"
  shows "sublist n p"
proof -
  let ?r = "dropWhile (\<lambda>c. c = CHR ''/'') (rev p)"
  have "rev n = takeWhile (\<lambda>c. c \<noteq> CHR ''/'') ?r"
    using assms(1) by (auto simp: basename_def)
  then have "prefix (rev n) ?r"
    by (metis takeWhile_dropWhile_id prefixI)
  moreover have "suffix ?r (rev p)"
    by (metis suffixI takeWhile_dropWhile_id)
  ultimately have "sublist (rev n) (rev p)"
    by (meson prefix_imp_sublist suffix_imp_sublist sublist_order.order_trans)
  then show ?thesis by simp
qed

text \<open>
  What the directory filter computes: a directory is entered when its name does not
  start with a dot and it is named \<^verbatim>\<open>node_modules\<close>, or its parent is, or the text
  \<^verbatim>\<open>node_modules\<close> occurs nowhere in the parent's path.
\<close>

lemma filterDirsNodeModPacks_iff:
  "filterDirsNodeModPacks ei \<longleftrightarrow>
     charAt (name ei) 0 \<noteq> ''.'' \<and>
     (name ei = ''node_modules'' \<or> basename (fullParentDir ei) = ''node_modules''
       \<or> \<not> sublist ''node_modules'' (fullParentDir ei))"
proof -
  define nm where "nm = ''node_modules''"
  have "basename (fullParentDir ei) = nm \<Longrightarrow> sublist nm (fullParentDir ei)"
    by (rule basename_sublist)
  then show ?thesis
    unfolding filterDirsNodeModPacks_def Let_def indexOf_sublist nm_def [symmetric]
    by (cases "charAt (name ei) 0 = ''.''"; cases "name ei = nm";
        cases "sublist nm (fullParentDir ei)") simp_all
qed

text \<open>
  Two consequences: a dot-directory is never entered, and below a path that contains
  \<^verbatim>\<open>node_modules\<close> a directory is entered only if it or its parent is named
  \<^verbatim>\<open>node_modules\<close>, so the walk goes one level below an entered \<^verbatim>\<open>node_modules\<close>
  directory and no further, except into a nested \<^verbatim>\<open>node_modules\<close>.
\<close>

lemma filterDirsNodeModPacks_dot:
  "filterDirsNodeModPacks ei \<Longrightarrow> charAt (name ei) 0 \<noteq> ''.''"
  by (simp add: filterDirsNodeModPacks_iff)

lemma filterDirsNodeModPacks_below_node_modules:
  assumes "filterDirsNodeModPacks ei" and "sublist ''node_modules'' (fullParentDir ei)"
  shows "name ei = ''node_modules'' \<or> basename (fullParentDir ei) = ''node_modules''"
  using assms unfolding filterDirsNodeModPacks_iff by blast

text \<open>
  C1. The directory filter accepts a directory if and only if its name does not start
  with a dot and it is named \<^verbatim>\<open>node_modules\<close>, or its parent is, or no segment of the
  parent's path is \<^verbatim>\<open>node_modules\<close>. The code tests for the text \<^verbatim>\<open>node_modules\<close>
  anywhere in the parent's path instead: below \<^verbatim>\<open>/home/u/node_modules_old/proj\<close>, a
  path none of whose segments is \<^verbatim>\<open>node_modules\<close>, the directory \<^verbatim>\<open>lib\<close> is rejected,
  although the filter's own comments say "not in node_modules yet, so keep walking".
\<close>

theorem filterDirsNodeModPacks_rejects_outside_node_modules:
  "filterDirsNodeModPacks
     \<lparr>name = ''lib'', fullPath = ''/home/u/node_modules_old/proj/lib'',
      fullParentDir = ''/home/u/node_modules_old/proj'',
      stat = \<lparr>dev = 1, ino = 2, mtime = 3\<rparr>\<rparr> = False \<and>
   charAt ''lib'' 0 \<noteq> ''.'' \<and>
   ''node_modules'' \<notin> set (path_segments ''/home/u/node_modules_old/proj'')"
  by (simp add: filterDirsNodeModPacks_def charAt_def basename_def)

lemma dropWhile_nonslash:
  "CHR ''/'' \<notin> set s \<Longrightarrow>
     dropWhile (\<lambda>d. d \<noteq> CHR ''/'') (s @ CHR ''/'' # t) = CHR ''/'' # t"
  by (induction s) auto

lemma dropWhile_slash_none:
  "CHR ''/'' \<notin> set s \<Longrightarrow> dropWhile (\<lambda>d. d = CHR ''/'') s = s"
  by (cases s) auto

lemma dropWhile_nonslash_all:
  "CHR ''/'' \<notin> set s \<Longrightarrow> dropWhile (\<lambda>d. d \<noteq> CHR ''/'') s = []"
  by (induction s) auto

lemma dirname_root_component:
  assumes "CHR ''/'' \<notin> set s"
  shows "dirname (CHR ''/'' # s) = ''/''"
  using assms by (simp add: dirname_def dropWhile_nonslash_all dropWhile_slash_none)

lemma dirname_append_component:
  assumes "s \<noteq> []" and "CHR ''/'' \<notin> set s" and "q' \<noteq> []"
  shows "dirname ((c # q') @ CHR ''/'' # s) = c # q'"
proof -
  have 1: "dropWhile (\<lambda>d. d = CHR ''/'') (rev s @ CHR ''/'' # rev q') = rev s @ CHR ''/'' # rev q'"
    using assms(1,2) by (cases "rev s") auto
  have 2: "dropWhile (\<lambda>d. d \<noteq> CHR ''/'') (rev s @ CHR ''/'' # rev q') = CHR ''/'' # rev q'"
    using assms(2) by (simp add: dropWhile_nonslash)
  show ?thesis using assms(3) by (simp add: dirname_def 1 2)
qed

lemma suffix_after_slash:
  assumes "CHR ''/'' \<notin> set g" and "CHR ''/'' \<notin> set n"
  shows "suffix (c # n) (p @ CHR ''/'' # g) \<longleftrightarrow>
           (if c = CHR ''/'' then g = n else suffix (c # n) g)"
proof (cases "c = CHR ''/''")
  case True
  have "\<not> suffix (c # n) g"
    using True assms(1) by (auto simp: suffix_def)
  moreover have "(\<exists>xs'. c # n = xs' @ CHR ''/'' # g \<and> suffix xs' p) \<longleftrightarrow> g = n"
    using True assms(2) by (auto simp: Cons_eq_append_conv)
  ultimately show ?thesis
    using True by (auto simp: suffix_append suffix_Cons)
next
  case False
  have "\<not> (\<exists>xs'. c # n = xs' @ CHR ''/'' # g \<and> suffix xs' p)"
    using False assms(2) by (auto simp: Cons_eq_append_conv)
  then show ?thesis
    using False by (auto simp: suffix_append suffix_Cons)
qed

lemma ends_test_component:
  assumes "CHR ''/'' \<notin> set g"
  shows "ENDS_NODE_MOD_RE_test (p @ CHR ''/'' # g) \<longleftrightarrow>
           g = ''node_modules'' \<or> suffix (CHR 0x5C # ''node_modules'') g"
  unfolding ENDS_NODE_MOD_RE_test_def
  using assms by (auto simp: suffix_after_slash)

lemma ends_test_root: "\<not> ENDS_NODE_MOD_RE_test ''/''"
  by (simp add: ENDS_NODE_MOD_RE_test_def suffix_Cons)

lemma abs_path_snoc:
  "segs \<noteq> [] \<Longrightarrow> abs_path (segs @ [s]) = abs_path segs @ CHR ''/'' # s"
  by (simp add: abs_path_def)

lemma abs_path_nonempty:
  assumes "segs \<noteq> []" and "last segs \<noteq> []"
  shows "\<exists>q. abs_path segs = CHR ''/'' # q \<and> q \<noteq> []"
proof (cases segs)
  case Nil
  then show ?thesis using assms by simp
next
  case (Cons x xs)
  show ?thesis
  proof (cases xs)
    case Nil
    then show ?thesis using Cons assms by (simp add: abs_path_def)
  next
    case (Cons y ys)
    then show ?thesis using \<open>segs = x # xs\<close> by (simp add: abs_path_def)
  qed
qed

text \<open>
  C6, as stated: a file is kept as a candidate if and only if the parent directory of
  its immediate parent directory is named \<^verbatim>\<open>node_modules\<close>. On POSIX a directory name may
  hold a backslash, and the pattern takes a backslash for a separator: the manifest of
  \<^verbatim>\<open>/a/x\node_modules/pkg\<close> (found when that directory is a root of the scan) is
  kept, though the parent of its parent is named \<^verbatim>\<open>x\node_modules\<close>.
\<close>

theorem parentEndsNodeModules_backslash_name:
  "\<not> (parentEndsNodeModules
        \<lparr>name = ''package.json'',
         fullPath = abs_path [''a'', ''x'' @ CHR 0x5C # ''node_modules'', ''pkg'', ''package.json''],
         fullParentDir = abs_path [''a'', ''x'' @ CHR 0x5C # ''node_modules'', ''pkg''],
         stat = \<lparr>dev = 1, ino = 2, mtime = 3\<rparr>\<rparr>
      \<longleftrightarrow>
      basename (dirname (abs_path [''a'', ''x'' @ CHR 0x5C # ''node_modules'', ''pkg'']))
        = ''node_modules'')"
  by (simp add: parentEndsNodeModules_def ENDS_NODE_MOD_RE_test_def dirname_def basename_def
      abs_path_def suffix_Cons)

text \<open>
  C6, amended. Let the manifest's directory be reached from the root through the
  directories \<^verbatim>\<open>segs\<close> (each name non-empty and free of slashes). The file is kept if
  and only if that directory has a parent whose name is \<^verbatim>\<open>node_modules\<close> or ends with a
  backslash followed by \<^verbatim>\<open>node_modules\<close>; a manifest in the root or in a directory
  directly below the root is never kept.
\<close>

theorem parentEndsNodeModules_iff:
  assumes ok: "\<forall>s\<in>set segs. dir_name_ok s"
    and p: "fullParentDir ei = abs_path segs"
  shows "parentEndsNodeModules ei \<longleftrightarrow>
           (case rev segs of
              _ # g # _ \<Rightarrow> g = ''node_modules'' \<or> suffix (CHR 0x5C # ''node_modules'') g
            | _ \<Rightarrow> False)"
proof (cases "rev segs")
  case Nil
  then have "dirname (abs_path segs) = ''/''" by (simp add: abs_path_def dirname_def)
  then show ?thesis using Nil p
    by (simp add: parentEndsNodeModules_def ends_test_root)
next
  case (Cons s r)
  note outer = Cons
  have s: "s \<noteq> []" "CHR ''/'' \<notin> set s"
    using ok Cons by (auto simp: dir_name_ok_def rev_eq_Cons_iff)
  show ?thesis
  proof (cases r)
    case Nil
    then have "segs = [s]" using outer by (simp add: rev_eq_Cons_iff)
    then have "dirname (abs_path segs) = ''/''"
      using s by (simp add: abs_path_def dirname_root_component)
    then show ?thesis using Nil outer p
      by (simp add: parentEndsNodeModules_def ends_test_root)
  next
    case (Cons g r')
    then have segs: "segs = (rev r' @ [g]) @ [s]" using outer by (simp add: rev_eq_Cons_iff)
    have g: "g \<noteq> []" "CHR ''/'' \<notin> set g"
      using ok segs by (auto simp: dir_name_ok_def)
    obtain q where q: "abs_path (rev r' @ [g]) = CHR ''/'' # q" "q \<noteq> []"
      using abs_path_nonempty [of "rev r' @ [g]"] g by auto
    have "abs_path segs = (CHR ''/'' # q) @ CHR ''/'' # s"
      unfolding segs using q by (simp add: abs_path_snoc del: append_assoc)
    then have "dirname (abs_path segs) = abs_path (rev r' @ [g])"
      using dirname_append_component [OF s q(2)] q(1) by simp
    moreover have "\<exists>pre. abs_path (rev r' @ [g]) = pre @ CHR ''/'' # g"
      by (simp add: abs_path_def)
    ultimately show ?thesis
      using ends_test_component [OF g(2)] Cons outer p
      by (auto simp: parentEndsNodeModules_def)
  qed
qed

theorem parentEndsNodeModules_iff_witness:
  "dir_name_ok ''srv'' \<and> dir_name_ok ''node_modules'' \<and> dir_name_ok ''lodash'' \<and>
   parentEndsNodeModules
     \<lparr>name = ''package.json'', fullPath = ''/srv/node_modules/lodash/package.json'',
      fullParentDir = abs_path [''srv'', ''node_modules'', ''lodash''],
      stat = \<lparr>dev = 1, ino = 2, mtime = 3\<rparr>\<rparr> \<and>
   \<not> parentEndsNodeModules
     \<lparr>name = ''package.json'', fullPath = ''/srv/node_modules/lodash/test/package.json'',
      fullParentDir = abs_path [''srv'', ''node_modules'', ''lodash'', ''test''],
      stat = \<lparr>dev = 1, ino = 2, mtime = 3\<rparr>\<rparr>"
  using parentEndsNodeModules_iff [of "[''srv'', ''node_modules'', ''lodash'']"
      "\<lparr>name = ''package.json'', fullPath = ''/srv/node_modules/lodash/package.json'',
        fullParentDir = abs_path [''srv'', ''node_modules'', ''lodash''],
        stat = \<lparr>dev = 1, ino = 2, mtime = 3\<rparr>\<rparr>"]
    parentEndsNodeModules_iff [of "[''srv'', ''node_modules'', ''lodash'', ''test'']"
      "\<lparr>name = ''package.json'', fullPath = ''/srv/node_modules/lodash/test/package.json'',
        fullParentDir = abs_path [''srv'', ''node_modules'', ''lodash'', ''test''],
        stat = \<lparr>dev = 1, ino = 2, mtime = 3\<rparr>\<rparr>"]
  by (simp add: dir_name_ok_def suffix_Cons)



section \<open>Properties of the grouper and of key extraction\<close>

lemma first_occurrences_snoc:
  "first_occurrences (ks @ [k]) =
     (if k \<in> set ks then first_occurrences ks else first_occurrences ks @ [k])"
  by (simp add: first_occurrences_def)

lemma set_first_occurrences [simp]: "set (first_occurrences ks) = set ks"
  by (simp add: first_occurrences_def)

lemma distinct_first_occurrences [simp]: "distinct (first_occurrences ks)"
  by (simp add: first_occurrences_def)

lemma push_group_tabulated:
  assumes "distinct ks"
  shows "push_group (map (\<lambda>k'. (k', f k')) ks) k v =
           (if k \<in> set ks then map (\<lambda>k'. (k', if k' = k then f k' @ [v] else f k')) ks
            else map (\<lambda>k'. (k', f k')) ks @ [(k, [v])])"
  using assms by (induction ks) auto

lemma groupsOf_snoc:
  "groupsOf key elem (xs @ [x]) = push_group (groupsOf key elem xs) (key x) (elem x)"
  by (simp add: groupsOf_def)

lemma groupsOf_eq:
  "groupsOf key elem xs =
     map (\<lambda>k. (k, map elem (filter (\<lambda>x. key x = k) xs))) (first_occurrences (map key xs))"
proof (induction xs rule: rev_induct)
  case Nil
  then show ?case by (simp add: groupsOf_def first_occurrences_def)
next
  case (snoc x xs)
  let ?f = "\<lambda>k. map elem (filter (\<lambda>x. key x = k) xs)"
  let ?ks = "first_occurrences (map key xs)"
  have "groupsOf key elem (xs @ [x]) = push_group (map (\<lambda>k. (k, ?f k)) ?ks) (key x) (elem x)"
    by (simp add: groupsOf_snoc snoc.IH)
  also have "\<dots> = (if key x \<in> set ?ks
        then map (\<lambda>k'. (k', if k' = key x then ?f k' @ [elem x] else ?f k')) ?ks
        else map (\<lambda>k'. (k', ?f k')) ?ks @ [(key x, [elem x])])"
    by (rule push_group_tabulated) simp
  also have "\<dots> = map (\<lambda>k. (k, map elem (filter (\<lambda>y. key y = k) (xs @ [x]))))
                     (first_occurrences (map key (xs @ [x])))"
  proof (cases "key x \<in> key ` set xs")
    case True
    then show ?thesis by (auto simp: first_occurrences_snoc)
  next
    case False
    then have "\<forall>y\<in>set xs. key y \<noteq> key x"
      by (metis imageI)
    then have "filter (\<lambda>y. key y = key x) xs = []"
      by (simp add: filter_empty_conv)
    with False show ?thesis by (auto simp: first_occurrences_snoc)
  qed
  finally show ?case .
qed

lemma grouper_run_nexts:
  "grouper_run key elem (Some gs) (map Next xs) =
     (Some (foldl (\<lambda>gs x. push_group gs (key x) (elem x)) gs xs), [])"
  by (induction xs arbitrary: gs) auto

lemma grouper_run_append:
  "grouper_run key elem st (ns @ ms) =
     (case grouper_run key elem st ns of
        (st', out) \<Rightarrow> (case grouper_run key elem st' ms of (st'', outs) \<Rightarrow> (st'', out @ outs)))"
  by (induction ns arbitrary: st) (auto split: prod.splits)

text \<open>
  C3. While its input delivers entries the grouper emits nothing. When the input
  completes it emits, for each distinct key observed, exactly one pair of the key and the
  array of every entry seen for that key, in arrival order (the pairs in the order the
  keys first appeared), and then completes.
\<close>

theorem grouper_emits_groups_at_completion:
  "snd (grouper_run key elem (Some []) (map Next xs)) = [] \<and>
   snd (grouper_run key elem (Some []) (map Next xs @ [Complete])) =
     map (\<lambda>k. Next (k, map elem (filter (\<lambda>x. key x = k) xs))) (first_occurrences (map key xs))
       @ [Complete] \<and>
   distinct (first_occurrences (map key xs)) \<and>
   set (first_occurrences (map key xs)) = key ` set xs"
  by (simp add: grouper_run_nexts grouper_run_append groupsOf_eq [unfolded groupsOf_def] comp_def)

lemma mkEiDN_entryInfo [simp]: "entryInfo (mkEiDN ei pack) = ei"
  by (simp add: mkEiDN_def)

lemma mkEiDN_key_iff:
  "devNameVer (mkEiDN ei pack) = Some k \<longleftrightarrow>
     truthy pack \<and>
     (\<exists>n v. property pack ''name'' = Some n \<and> truthy n \<and>
            property pack ''version'' = Some v \<and> truthy v \<and>
            k = formatDevNameVersion (dev (stat ei)) n v)"
  by (auto simp: mkEiDN_def split: option.splits)

lemma mkEiDN_key_dev:
  "devNameVer (mkEiDN ei pack) = Some k \<Longrightarrow> fst k = dev (stat ei)"
  by (auto simp: mkEiDN_key_iff formatDevNameVersion_def)

lemma keyedEntries_member:
  "x \<in> set (keyedEntries xs) \<longleftrightarrow>
     (\<exists>ei pack. (ei, pack) \<in> set xs \<and> x = mkEiDN ei pack \<and> devNameVer x \<noteq> None)"
  by (fastforce simp: keyedEntries_def hasDevNameVer_def)

lemma group_member:
  "(k, es) \<in> set (findPackagesGrouped_groups xs) \<longleftrightarrow>
     k \<in> devNameVer ` set (keyedEntries xs) \<and>
     es = map entryInfo (filter (\<lambda>x. devNameVer x = k) (keyedEntries xs))"
  by (auto simp: findPackagesGrouped_groups_def groupsOf_eq)

lemma group_dev:
  assumes "(k, es) \<in> set (findPackagesGrouped_groups xs)" and "e \<in> set es"
  shows "\<exists>key. k = Some key \<and> fst key = dev (stat e)"
proof -
  from assms obtain x where x: "x \<in> set (keyedEntries xs)" "devNameVer x = k" "e = entryInfo x"
    by (auto simp: group_member)
  then obtain ei pack where "x = mkEiDN ei pack" "devNameVer x \<noteq> None"
    by (auto simp: keyedEntries_member)
  then show ?thesis using x mkEiDN_key_dev [of ei pack] by auto
qed

text \<open>
  C2. Of the scanned entries that pass key extraction, two with equal device id, name
  and version are placed in the same group, and two with different device ids are
  never placed in the same group, whatever their names and versions: the key holds all
  three components. (The key is the one modelled from the spec above.)
\<close>

theorem groups_correlate_by_device_name_version:
  assumes A: "(eiA, packA) \<in> set xs" and B: "(eiB, packB) \<in> set xs"
    and kA: "devNameVer (mkEiDN eiA packA) = Some kA"
    and kB: "devNameVer (mkEiDN eiB packB) = Some kB"
  shows "(dev (stat eiA) = dev (stat eiB) \<and>
          property packA ''name'' = property packB ''name'' \<and>
          property packA ''version'' = property packB ''version''
          \<longrightarrow> (\<exists>k es. (k, es) \<in> set (findPackagesGrouped_groups xs) \<and>
                        eiA \<in> set es \<and> eiB \<in> set es)) \<and>
         (dev (stat eiA) \<noteq> dev (stat eiB)
          \<longrightarrow> \<not> (\<exists>k es. (k, es) \<in> set (findPackagesGrouped_groups xs) \<and>
                          eiA \<in> set es \<and> eiB \<in> set es))"
proof (intro conjI impI)
  assume eq: "dev (stat eiA) = dev (stat eiB) \<and>
          property packA ''name'' = property packB ''name'' \<and>
          property packA ''version'' = property packB ''version''"
  have same: "kA = kB" using kA kB eq by (auto simp: mkEiDN_key_iff)
  let ?K = "keyedEntries xs"
  let ?es = "map entryInfo (filter (\<lambda>x. devNameVer x = Some kA) ?K)"
  have inA: "mkEiDN eiA packA \<in> set ?K" using A kA by (auto simp: keyedEntries_member)
  have inB: "mkEiDN eiB packB \<in> set ?K" using B kB by (auto simp: keyedEntries_member)
  have "(Some kA, ?es) \<in> set (findPackagesGrouped_groups xs)"
    using inA kA by (force simp: group_member)
  moreover have "eiA \<in> set ?es" using inA kA by force
  moreover have "eiB \<in> set ?es" using inB kB same by force
  ultimately show "\<exists>k es. (k, es) \<in> set (findPackagesGrouped_groups xs) \<and>
                        eiA \<in> set es \<and> eiB \<in> set es" by blast
next
  assume ne: "dev (stat eiA) \<noteq> dev (stat eiB)"
  show "\<not> (\<exists>k es. (k, es) \<in> set (findPackagesGrouped_groups xs) \<and>
                          eiA \<in> set es \<and> eiB \<in> set es)"
  proof
    assume "\<exists>k es. (k, es) \<in> set (findPackagesGrouped_groups xs) \<and> eiA \<in> set es \<and> eiB \<in> set es"
    then obtain k es where g: "(k, es) \<in> set (findPackagesGrouped_groups xs)"
      and "eiA \<in> set es" "eiB \<in> set es" by blast
    then have "\<exists>key. k = Some key \<and> fst key = dev (stat eiA)"
      and "\<exists>key. k = Some key \<and> fst key = dev (stat eiB)"
      using group_dev [OF g] by blast+
    then show False using ne by auto
  qed
qed

theorem groups_correlate_by_device_name_version_witness:
  "(\<exists>k es. (k, es) \<in> set (findPackagesGrouped_groups ex_scan) \<and>
      ex_entry ''/a/node_modules/lodash'' 5 \<in> set es \<and>
      ex_entry ''/b/node_modules/lodash'' 5 \<in> set es) \<and>
   \<not> (\<exists>k es. (k, es) \<in> set (findPackagesGrouped_groups ex_scan) \<and>
      ex_entry ''/a/node_modules/lodash'' 5 \<in> set es \<and>
      ex_entry ''/c/node_modules/lodash'' 7 \<in> set es)"
proof -
  let ?m = "ex_manifest ''lodash'' ''4.17.0''"
  let ?a = "ex_entry ''/a/node_modules/lodash'' 5"
  let ?b = "ex_entry ''/b/node_modules/lodash'' 5"
  let ?c = "ex_entry ''/c/node_modules/lodash'' 7"
  have inA: "(?a, ?m) \<in> set ex_scan" and inB: "(?b, ?m) \<in> set ex_scan"
    and inC: "(?c, ?m) \<in> set ex_scan"
    by (simp_all add: ex_scan_def)
  have kA: "devNameVer (mkEiDN ?a ?m) = Some (5, JStr ''lodash'', JStr ''4.17.0'')"
    and kB: "devNameVer (mkEiDN ?b ?m) = Some (5, JStr ''lodash'', JStr ''4.17.0'')"
    and kC: "devNameVer (mkEiDN ?c ?m) = Some (7, JStr ''lodash'', JStr ''4.17.0'')"
    by (simp_all add: mkEiDN_def ex_manifest_def ex_entry_def formatDevNameVersion_def)
  have devs: "dev (stat ?a) = dev (stat ?b)" "dev (stat ?a) \<noteq> dev (stat ?c)"
    by (simp_all add: ex_entry_def)
  show ?thesis
    using groups_correlate_by_device_name_version [OF inA inB kA kB]
      groups_correlate_by_device_name_version [OF inA inC kA kC] devs
    by blast
qed

lemma mkEiDN_no_key_iff:
  "devNameVer (mkEiDN ei pack) = None \<longleftrightarrow>
     (case property pack ''name'' of None \<Rightarrow> True | Some n \<Rightarrow> \<not> truthy n) \<or>
     (case property pack ''version'' of None \<Rightarrow> True | Some v \<Rightarrow> \<not> truthy v)"
  by (cases pack) (auto simp: mkEiDN_def split: option.splits)

lemma onManifest_no_key:
  "devNameVer (mkEiDN ei pack) = None \<Longrightarrow> onManifest st ei pack = st"
  by (simp add: onManifest_def hasDevNameVer_def)

lemma onManifest_key:
  assumes "devNameVer (mkEiDN ei pack) = Some k" and "grouper st = Some gs"
  shows "onManifest st ei pack =
           st\<lparr>rtenv := (rtenv st)\<lparr>packageCount := packageCount (rtenv st) + 1\<rparr>,
              scanLog := scanLog st @ [(packageCount (rtenv st) + 1, mkEiDN ei pack)],
              grouper := Some (push_group gs (Some k) ei)\<rparr>"
  using assms by (cases k) (simp add: onManifest_def hasDevNameVer_def toGrouper_def Let_def)




lemma keyedEntries_drop:
  "devNameVer (mkEiDN ei pack) = None \<Longrightarrow>
     keyedEntries (xs @ (ei, pack) # ys) = keyedEntries (xs @ ys)"
  by (simp add: keyedEntries_def hasDevNameVer_def)

text \<open>
  C10. A manifest whose name or version is present but falsy (the empty string, for
  one) is discarded exactly like a manifest without the field: the keyed entry built for
  it is the one built for a manifest with no fields, it has no correlation key, the
  filter drops it, the pipeline state (counter, log and groups) is unchanged, and the
  groups of a scan are those of the scan without that entry.
\<close>

theorem falsy_name_or_version_discarded:
  assumes "(\<exists>n. property pack ''name'' = Some n \<and> \<not> truthy n) \<or>
           (\<exists>v. property pack ''version'' = Some v \<and> \<not> truthy v)"
  shows "mkEiDN ei pack = mkEiDN ei (JObj []) \<and>
         devNameVer (mkEiDN ei pack) = None \<and>
         \<not> hasDevNameVer (mkEiDN ei pack) \<and>
         onManifest st ei pack = st \<and>
         findPackagesGrouped_groups (xs @ (ei, pack) # ys) = findPackagesGrouped_groups (xs @ ys)"
proof -
  have none: "devNameVer (mkEiDN ei pack) = None"
    using assms by (auto simp: mkEiDN_no_key_iff)
  then have "mkEiDN ei pack = mkEiDN ei (JObj [])"
    by (simp add: mkEiDN_def)
  then show ?thesis
    using none onManifest_no_key [OF none] keyedEntries_drop [OF none]
    by (simp add: hasDevNameVer_def findPackagesGrouped_groups_def)
qed

theorem falsy_name_or_version_discarded_witness:
  "devNameVer (mkEiDN (ex_entry ''/a/node_modules/p'' 5) (ex_manifest [] ''1.0.0'')) = None \<and>
   findPackagesGrouped_groups
     ((ex_entry ''/a/node_modules/p'' 5, ex_manifest [] ''1.0.0'') # ex_scan)
     = findPackagesGrouped_groups ex_scan \<and>
   devNameVer (mkEiDN (ex_entry ''/a/node_modules/p'' 5) (ex_manifest ''p'' [])) = None"
proof -
  have 1: "(\<exists>n. property (ex_manifest [] ''1.0.0'') ''name'' = Some n \<and> \<not> truthy n) \<or>
           (\<exists>v. property (ex_manifest [] ''1.0.0'') ''version'' = Some v \<and> \<not> truthy v)"
    by (simp add: ex_manifest_def)
  have 2: "(\<exists>n. property (ex_manifest ''p'' []) ''name'' = Some n \<and> \<not> truthy n) \<or>
           (\<exists>v. property (ex_manifest ''p'' []) ''version'' = Some v \<and> \<not> truthy v)"
    by (simp add: ex_manifest_def)
  show ?thesis
    using falsy_name_or_version_discarded [OF 1, of _ _ "[]" ex_scan]
      falsy_name_or_version_discarded [OF 2]
    by (simp add: mkEiDN_def)
qed

lemma onManifest_fold:
  assumes "grouper st = Some gs"
  shows "grouper (foldl (\<lambda>s (ei, pack). onManifest s ei pack) st xs) =
           Some (foldl (\<lambda>gs x. push_group gs (devNameVer x) (entryInfo x)) gs (keyedEntries xs)) \<and>
         packageCount (rtenv (foldl (\<lambda>s (ei, pack). onManifest s ei pack) st xs)) =
           packageCount (rtenv st) + length (keyedEntries xs) \<and>
         emitted (foldl (\<lambda>s (ei, pack). onManifest s ei pack) st xs) = emitted st"
  using assms
proof (induction xs arbitrary: st gs)
  case Nil
  then show ?case by (simp add: keyedEntries_def)
next
  case (Cons x xs)
  obtain ei pack where x: "x = (ei, pack)" by (cases x)
  show ?case
  proof (cases "devNameVer (mkEiDN ei pack)")
    case None
    then show ?thesis using Cons x
      by (simp add: onManifest_no_key keyedEntries_def hasDevNameVer_def)
  next
    case (Some k)
    have g: "grouper (onManifest st ei pack) = Some (push_group gs (Some k) ei)"
      using onManifest_key [OF Some Cons.prems] by simp
    show ?thesis
      using Cons.IH [OF g] Some x onManifest_key [OF Some Cons.prems]
      by (simp add: keyedEntries_def hasDevNameVer_def)
  qed
qed



text \<open>
  Feeding the manifests of a scan to a fresh pipeline, in the order their reads finish,
  leaves the grouper holding the groups of the scan and the counter at the number of
  keyed entries, with nothing emitted yet.
\<close>

lemma onManifest_fold_groups:
  assumes "grouper st = Some []"
  shows "grouper (foldl (\<lambda>s (ei, pack). onManifest s ei pack) st xs) =
           Some (findPackagesGrouped_groups xs)"
    and "packageCount (rtenv (foldl (\<lambda>s (ei, pack). onManifest s ei pack) st xs)) =
           packageCount (rtenv st) + length (keyedEntries xs)"
  using onManifest_fold [OF assms, of xs]
  by (simp_all add: findPackagesGrouped_groups_def groupsOf_def)


section \<open>Properties of cancellation (find-packages.js)\<close>


lemma startRoot_reads [simp]:
  "readActive (startRoot c st r) = readActive st"
  "readBuffer (startRoot c st r) = readBuffer st"
  "scanLog (startRoot c st r) = scanLog st"
  "packageCount (rtenv (startRoot c st r)) = packageCount (rtenv st)"
  by (simp_all add: startRoot_def)

lemma toGrouper_reads [simp]:
  "readActive (toGrouper st n) = readActive st"
  "readBuffer (toGrouper st n) = readBuffer st"
  "scanLog (toGrouper st n) = scanLog st"
  "rtenv (toGrouper st n) = rtenv st"
  by (simp_all add: toGrouper_def split: prod.splits)

lemma scanCompleted_reads [simp]:
  "readActive (scanCompleted st) = readActive st"
  "readBuffer (scanCompleted st) = readBuffer st"
  "scanLog (scanCompleted st) = scanLog st"
  "rtenv (scanCompleted st) = rtenv st"
  by (simp_all add: scanCompleted_def Let_def)

lemma rootDone_reads [simp]:
  "readActive (rootDone c st r) = readActive st"
  "readBuffer (rootDone c st r) = readBuffer st"
  "scanLog (rootDone c st r) = scanLog st"
  "packageCount (rtenv (rootDone c st r)) = packageCount (rtenv st)"
  by (simp_all add: rootDone_def Let_def split: list.splits)


lemma readDone_count [simp]:
  "packageCount (rtenv (readDone c st ei)) = packageCount (rtenv st)"
  by (simp add: readDone_def startRead_def Let_def split: list.splits)


lemma startRoot_cancelled [simp]:
  "cancelled (rtenv (startRoot c st r)) = cancelled (rtenv st)"
  by (simp add: startRoot_def)

lemma rootDone_cancelled [simp]:
  "cancelled (rtenv (rootDone c st r)) = cancelled (rtenv st)"
  by (simp add: rootDone_def Let_def split: list.splits)

lemma readDone_cancelled [simp]:
  "cancelled (rtenv (readDone c st ei)) = cancelled (rtenv st)"
  by (simp add: readDone_def startRead_def Let_def split: list.splits)

lemma onManifest_cancelled [simp]:
  "cancelled (rtenv (onManifest st ei pack)) = cancelled (rtenv st)"
  by (simp add: onManifest_def Let_def)

lemma onManifest_reads [simp]:
  "readActive (onManifest st ei pack) = readActive st"
  "readBuffer (onManifest st ei pack) = readBuffer st"
  by (simp_all add: onManifest_def Let_def)










section \<open>Properties of the final tasks (cli.js)\<close>

lemma finalTasks_body_effects:
  "\<exists>es. effects (finalTasks_body cfg s) = effects s @ es \<and>
        count_list es SingleLineLogComplete = 1 \<and>
        count_list es CancelledNext = 0 \<and>
        length (filter is_OutputJson es) \<le> 1 \<and>
        finalTasksCalled (finalTasks_body cfg s) = finalTasksCalled s \<and>
        cancelCalled (finalTasks_body cfg s) = cancelCalled s"
  by (simp add: finalTasks_body_def emit_def Let_def)

lemma cancel_body_effects:
  "\<exists>es. effects (cancel_body cfg s) = effects s @ es \<and>
        count_list es SingleLineLogComplete = 0 \<and>
        count_list es CancelledNext = 1 \<and>
        filter is_OutputJson es = [] \<and>
        finalTasksCalled (cancel_body cfg s) = finalTasksCalled s \<and>
        cancelCalled (cancel_body cfg s) = cancelCalled s"
  by (simp add: cancel_body_def emit_def)

lemma count_list_append: "count_list (xs @ ys) x = count_list xs x + count_list ys x"
  by (induction xs) auto

lemma finalTasks_inv:
  assumes "once_inv s"
  shows "once_inv (finalTasks cfg s)"
proof (cases "finalTasksCalled s")
  case True
  then show ?thesis using assms by (simp add: finalTasks_def)
next
  case False
  let ?s = "s\<lparr>finalTasksCalled := True\<rparr>"
  obtain es where es: "effects (finalTasks_body cfg ?s) = effects ?s @ es"
    "count_list es SingleLineLogComplete = 1" "count_list es CancelledNext = 0"
    "length (filter is_OutputJson es) \<le> 1"
    "finalTasksCalled (finalTasks_body cfg ?s) = finalTasksCalled ?s"
    "cancelCalled (finalTasks_body cfg ?s) = cancelCalled ?s"
    using finalTasks_body_effects [of cfg ?s] by blast
  show ?thesis
    using False assms es by (simp add: finalTasks_def once_inv_def count_list_append)
qed

lemma cancel_inv:
  assumes "once_inv s"
  shows "once_inv (cancel cfg s)"
proof (cases "cancelCalled s")
  case True
  then show ?thesis using assms by (simp add: cancel_def)
next
  case False
  let ?s = "s\<lparr>cancelCalled := True\<rparr>"
  obtain es where es: "effects (cancel_body cfg ?s) = effects ?s @ es"
    "count_list es SingleLineLogComplete = 0" "count_list es CancelledNext = 1"
    "filter is_OutputJson es = []"
    "finalTasksCalled (cancel_body cfg ?s) = finalTasksCalled ?s"
    "cancelCalled (cancel_body cfg ?s) = cancelCalled ?s"
    using cancel_body_effects [of cfg ?s] by blast
  show ?thesis
    using False assms es by (simp add: cancel_def once_inv_def count_list_append)
qed

lemma once_inv_listeners [simp]: "once_inv (s\<lparr>listeners := l\<rparr>) = once_inv s"
  by (simp add: once_inv_def)

lemma cli_step_inv:
  assumes "once_inv s"
  shows "once_inv (cli_step cfg s ev)"
proof (cases "running s")
  case False
  then show ?thesis using assms by (simp add: cli_step_def)
next
  case True
  show ?thesis
  proof (cases ev)
    case SIGINT
    then show ?thesis using True assms cancel_inv [of "s\<lparr>listeners := remove1 SIGINT (listeners s)\<rparr>" cfg]
      by (simp add: cli_step_def) (simp add: once_inv_def)
  next
    case SIGTERM
    then show ?thesis using True assms cancel_inv [of "s\<lparr>listeners := remove1 SIGTERM (listeners s)\<rparr>" cfg]
      by (simp add: cli_step_def) (simp add: once_inv_def)
  next
    case EXIT
    then show ?thesis using True assms finalTasks_inv [of "s\<lparr>listeners := remove1 EXIT (listeners s)\<rparr>" cfg]
      by (simp add: cli_step_def)
  next
    case TasksComplete
    then show ?thesis using True assms finalTasks_inv [of s cfg] by (simp add: cli_step_def)
  next
    case TasksError
    then show ?thesis using True assms
      by (simp add: cli_step_def emit_def once_inv_def count_list_append)
  next
    case (StoreAssigned obj)
    then show ?thesis using True assms by (simp add: cli_step_def once_inv_def)
  next
    case (BytesSaved n)
    then show ?thesis using True assms by (simp add: cli_step_def once_inv_def)
  qed
qed

lemma cli_run_inv: "once_inv s \<Longrightarrow> once_inv (cli_run cfg s evs)"
  unfolding cli_run_def by (induction evs arbitrary: s) (simp_all add: cli_step_inv)

lemma cli_start_inv: "once_inv (cli_start cfg env fs)"
  by (simp add: cli_start_def once_inv_def Let_def)

text \<open>
  C9. In one run of the program, whatever signals, process events, task completions and
  changes to the runtime environment occur and in whatever order, the body of the final
  tasks runs at most once and so does the body of the cancellation routine, and the
  reference-store file is written at most once. (Each run of the final tasks' body
  completes the single-line log exactly once, and each run of the cancellation body
  publishes on the cancellation subject exactly once; these are what is counted.)
\<close>

theorem finalTasks_and_cancel_run_at_most_once:
  "count_list (effects (cli_run cfg (cli_start cfg env fs) evs)) SingleLineLogComplete \<le> 1 \<and>
   count_list (effects (cli_run cfg (cli_start cfg env fs) evs)) CancelledNext \<le> 1 \<and>
   length (filter is_OutputJson (effects (cli_run cfg (cli_start cfg env fs) evs))) \<le> 1"
  using cli_run_inv [OF cli_start_inv, of cfg cfg env fs evs]
  by (simp add: once_inv_def split: if_splits)

text \<open>
  Both bodies do run: with a store assigned, both signals, completion and the
  \<^verbatim>\<open>'EXIT'\<close> event, each body has run exactly once and the file was written once.
\<close>

lemma cli_run_example_counts:
  "count_list (effects (cli_run ex_config (cli_start ex_config ex_rtenv (\<lambda>p. None))
      [StoreAssigned ex_store, SIGINT, SIGTERM, TasksComplete, EXIT])) SingleLineLogComplete = 1 \<and>
   count_list (effects (cli_run ex_config (cli_start ex_config ex_rtenv (\<lambda>p. None))
      [StoreAssigned ex_store, SIGINT, SIGTERM, TasksComplete, EXIT])) CancelledNext = 1 \<and>
   length (filter is_OutputJson (effects (cli_run ex_config (cli_start ex_config ex_rtenv (\<lambda>p. None))
      [StoreAssigned ex_store, SIGINT, SIGTERM, TasksComplete, EXIT]))) = 1"
  by (simp add: cli_run_def cli_step_def cli_start_def cancel_def cancel_body_def finalTasks_def
      finalTasks_body_def emit_def ex_config_def ex_rtenv_def isTermOut_def Let_def)









lemma cancel_files [simp]:
  "files (cancel cfg s) = files s"
  "filter is_OutputJson (effects (cancel cfg s)) = filter is_OutputJson (effects s)"
  by (simp_all add: cancel_def cancel_body_def emit_def)

lemma finalTasks_dry:
  assumes "dryrun cfg \<or> gen_ln_cmds cfg"
  shows "files (finalTasks cfg s) = files s"
    and "filter is_OutputJson (effects (finalTasks cfg s)) = filter is_OutputJson (effects s)"
  using assms by (auto simp: finalTasks_def finalTasks_body_def emit_def Let_def)

lemma cli_step_dry:
  assumes "dryrun cfg \<or> gen_ln_cmds cfg"
  shows "files (cli_step cfg s ev) = files s \<and>
         filter is_OutputJson (effects (cli_step cfg s ev)) = filter is_OutputJson (effects s)"
  using finalTasks_dry [OF assms]
  by (cases ev) (simp_all add: cli_step_def emit_def)

lemma cli_run_dry:
  assumes "dryrun cfg \<or> gen_ln_cmds cfg"
  shows "files (cli_run cfg s evs) = files s \<and>
         filter is_OutputJson (effects (cli_run cfg s evs)) = filter is_OutputJson (effects s)"
proof (induction evs arbitrary: s)
  case Nil
  then show ?case by (simp add: cli_run_def)
next
  case (Cons ev evs)
  have "cli_run cfg s (ev # evs) = cli_run cfg (cli_step cfg s ev) evs"
    by (simp add: cli_run_def)
  then show ?case using Cons [of "cli_step cfg s ev"] cli_step_dry [OF assms, of s ev] by simp
qed

lemma readJsonSync_ensureFileSync:
  "readJsonSync (ensureFileSync path fs) path = readJsonSync fs path"
  by (simp add: readJsonSync_def ensureFileSync_def split: option.splits)

lemma cli_start_files: "files (cli_start cfg env fs) = ensureFileSync (REFS_PATH cfg) fs"
  by (simp add: cli_start_def Let_def)

text \<open>
  C7, amended. In dry-run mode and in generate-commands mode the final tasks never
  write the reference-store file and leave the file system as it is, whatever happened
  to the runtime environment; the same holds for every sequence of events after
  start-up. Start-up itself (in every mode) creates an empty reference-store file where
  there is none, which does not change the store as it is read. (What the link stage of
  \<^verbatim>\<open>./index\<close> does to the file system is outside the two source files.)
\<close>

theorem dry_run_final_tasks_write_nothing:
  assumes "dryrun cfg \<or> gen_ln_cmds cfg"
  shows "files (finalTasks cfg s) = files s \<and>
         filter is_OutputJson (effects (finalTasks cfg s)) = filter is_OutputJson (effects s) \<and>
         files (cli_run cfg s evs) = files s \<and>
         filter is_OutputJson (effects (cli_run cfg s evs)) = filter is_OutputJson (effects s) \<and>
         files (cli_start cfg env fs) = ensureFileSync (REFS_PATH cfg) fs \<and>
         readJsonSync (files (cli_start cfg env fs)) (REFS_PATH cfg) =
           readJsonSync fs (REFS_PATH cfg)"
  using finalTasks_dry [OF assms] cli_run_dry [OF assms]
  by (simp add: cli_start_files readJsonSync_ensureFileSync)

text \<open>
  C7, as stated: in dry-run mode no filesystem mutation is performed. Start a dry run on
  a file system without a reference-store file: after the run the file exists
  (\<^verbatim>\<open>fs.ensureFileSync(REFS_PATH)\<close> runs before the mode is looked at).
\<close>

theorem dry_run_creates_missing_store_file:
  "dryrun (ex_config\<lparr>dryrun := True\<rparr>) \<and>
   files (cli_run (ex_config\<lparr>dryrun := True\<rparr>)
            (cli_start (ex_config\<lparr>dryrun := True\<rparr>) ex_rtenv (\<lambda>p. None)) [TasksComplete])
     \<noteq> (\<lambda>p. None)"
proof -
  have "files (cli_run (ex_config\<lparr>dryrun := True\<rparr>)
            (cli_start (ex_config\<lparr>dryrun := True\<rparr>) ex_rtenv (\<lambda>p. None)) [TasksComplete])
          ''/home/u/.pkglink_refs'' = Some NotJson"
    by (simp add: cli_run_def cli_step_def cli_start_def finalTasks_def finalTasks_body_def
        emit_def ensureFileSync_def ex_config_def Let_def)
  then show ?thesis by (auto simp: fun_eq_iff)
qed

theorem dry_run_final_tasks_write_nothing_witness:
  "filter is_OutputJson
     (effects (cli_run (ex_config\<lparr>dryrun := True\<rparr>)
        (cli_start (ex_config\<lparr>dryrun := True\<rparr>) ex_rtenv
           ((\<lambda>p. None)(''/home/u/.pkglink_refs'' \<mapsto> JsonFile [])))
        [StoreAssigned ex_store, BytesSaved 10, TasksComplete])) = [] \<and>
   files (cli_run (ex_config\<lparr>dryrun := True\<rparr>)
        (cli_start (ex_config\<lparr>dryrun := True\<rparr>) ex_rtenv
           ((\<lambda>p. None)(''/home/u/.pkglink_refs'' \<mapsto> JsonFile [])))
        [StoreAssigned ex_store, BytesSaved 10, TasksComplete])
     = (\<lambda>p. None)(''/home/u/.pkglink_refs'' \<mapsto> JsonFile [])"
proof -
  let ?cfg = "ex_config\<lparr>dryrun := True\<rparr>"
  let ?fs = "(\<lambda>p. None)(''/home/u/.pkglink_refs'' \<mapsto> JsonFile [])"
  have dry: "dryrun ?cfg \<or> gen_ln_cmds ?cfg" by simp
  have start: "filter is_OutputJson (effects (cli_start ?cfg ex_rtenv ?fs)) = []"
    "ensureFileSync (REFS_PATH ?cfg) ?fs = ?fs"
    by (simp_all add: cli_start_def ensureFileSync_def ex_config_def Let_def)
  show ?thesis
    using dry_run_final_tasks_write_nothing [OF dry, of "cli_start ?cfg ex_rtenv ?fs"
        "[StoreAssigned ex_store, BytesSaved 10, TasksComplete]" ex_rtenv ?fs] start
    by simp
qed

end
